theory Spec2Isabelle
  imports Complex_Main "HOL-Library.AList"
begin

section \<open>Double-precision numbers\<close>

datatype double = Num real | PosInf | NegInf | NaN

definition round_even :: "real \<Rightarrow> int" where
  "round_even x =
     (if x - of_int \<lfloor>x\<rfloor> < 1 / 2 then \<lfloor>x\<rfloor>
      else if 1 / 2 < x - of_int \<lfloor>x\<rfloor> then \<lfloor>x\<rfloor> + 1
      else if even \<lfloor>x\<rfloor> then \<lfloor>x\<rfloor> else \<lfloor>x\<rfloor> + 1)"

definition expo :: "real \<Rightarrow> int" where
  "expo x = (if \<bar>x\<bar> < 2 powi (- 1022) then - 1074 else \<lfloor>log 2 \<bar>x\<bar>\<rfloor> - 52)"

definition rnd :: "real \<Rightarrow> double" where
  "rnd x =
     (let y = of_int (round_even (x / 2 powi expo x)) * 2 powi expo x
      in if 2 powi 1024 \<le> y then PosInf
         else if y \<le> - (2 powi 1024) then NegInf
         else Num y)"

lemma round_even_of_int [simp]: "round_even (of_int k) = k"
  by (simp add: round_even_def)

lemma round_even_0 [simp]: "round_even 0 = 0"
  using round_even_of_int [of 0] by simp

lemma powr_powi: "2 powr (of_int k) = (2::real) powi k"
  by (simp add: powr_int power_int_def inverse_eq_divide power_one_over)

lemma floor_log2: "0 < x \<Longrightarrow> \<lfloor>log 2 x\<rfloor> = k \<longleftrightarrow> 2 powi k \<le> x \<and> x < 2 powi (k + 1)"
  using floor_log_eq_powr_iff [of x 2 k] powr_powi [of k] powr_powi [of "k + 1"]
  by simp

lemma expo_normal:
  assumes "2 powi k \<le> \<bar>x\<bar>" and "\<bar>x\<bar> < 2 powi (k + 1)" and "- 1022 \<le> k"
  shows "expo x = k - 52"
proof -
  have "(2::real) powi (- 1022) \<le> 2 powi k"
    using assms(3) by (intro power_int_increasing) simp_all
  then have "\<not> \<bar>x\<bar> < 2 powi (- 1022)" using assms(1) by linarith
  moreover have "0 < \<bar>x\<bar>" using assms(1) zero_less_power_int [of "2::real" k] by linarith
  ultimately show ?thesis
    using floor_log2 [of "\<bar>x\<bar>" k] assms(1,2) by (simp add: expo_def)
qed


lemma rnd_0 [simp]: "rnd 0 = Num 0"
  by (simp add: rnd_def expo_def)

text \<open>A number \<open>m * 2^e\<close> with a 53-bit \<open>m\<close> in a normal binade is a double: rounding is exact.\<close>

lemma rnd_exact_normal:
  assumes "2 ^ 52 \<le> \<bar>m\<bar>" and "\<bar>m\<bar> < 2 ^ 53" and "- 1074 \<le> e" and "e \<le> 971"
  shows "rnd (of_int m * 2 powi e) = Num (of_int m * 2 powi e)"
proof -
  let ?x = "of_int m * (2::real) powi e"
  have p: "(0::real) < 2 powi e" by simp
  have ax: "\<bar>?x\<bar> = of_int \<bar>m\<bar> * 2 powi e"
    by (simp add: abs_mult)
  have lo: "2 powi (e + 52) \<le> \<bar>?x\<bar>"
  proof -
    have "(2::real) powi (e + 52) = 2 ^ 52 * 2 powi e"
      by (simp add: power_int_add)
    also have "\<dots> \<le> of_int \<bar>m\<bar> * 2 powi e"
      using assms(1) p by (intro mult_right_mono) (simp_all add: of_int_le_numeral_power_cancel_iff flip: of_int_abs)
    finally show ?thesis using ax by simp
  qed
  have hi: "\<bar>?x\<bar> < 2 powi (e + 52 + 1)"
  proof -
    have "of_int \<bar>m\<bar> * (2::real) powi e < 2 ^ 53 * 2 powi e"
      using assms(2) p by (intro mult_strict_right_mono) (simp_all flip: of_int_abs)
    also have "\<dots> = 2 powi (e + 52 + 1)"
      by (simp add: power_int_add)
    finally show ?thesis using ax by simp
  qed
  have ex: "expo ?x = e"
    using expo_normal [OF lo hi] assms(3) by simp
  have y: "of_int (round_even (?x / 2 powi expo ?x)) * 2 powi expo ?x = ?x"
    by (simp add: ex)
  have b: "\<bar>?x\<bar> < 2 powi 1024"
  proof -
    have "(2::real) powi (e + 52 + 1) \<le> 2 powi 1024"
      using assms(4) by (intro power_int_increasing) simp_all
    then show ?thesis using hi by linarith
  qed
  show ?thesis
    unfolding rnd_def Let_def y using b by (auto simp: abs_less_iff)
qed


lemma pow2_mult: "e = int n + d \<Longrightarrow> (2::real) ^ n * 2 powi d = 2 powi e"
  by (simp add: power_int_add)

lemma pow2_mult_int: "e = int n + d \<Longrightarrow> of_int (2 ^ n) * (2::real) powi d = 2 powi e"
  by (simp add: power_int_add)

lemma round_even_bounds:
  assumes "of_int a \<le> x" and "x \<le> of_int b"
  shows "a \<le> round_even x \<and> round_even x \<le> b"
proof -
  have fl: "a \<le> \<lfloor>x\<rfloor>" using assms(1) by (simp add: le_floor_iff)
  have fu: "\<lfloor>x\<rfloor> \<le> b" using assms(2) by (simp add: floor_le_iff)
  show ?thesis
  proof (cases "x = of_int \<lfloor>x\<rfloor>")
    case True
    then have "x - of_int \<lfloor>x\<rfloor> < 1 / 2" by simp
    then have "round_even x = \<lfloor>x\<rfloor>" by (simp add: round_even_def)
    then show ?thesis using fl fu by simp
  next
    case False
    then have "of_int \<lfloor>x\<rfloor> < x" using of_int_floor_le [of x] by linarith
    then have "of_int \<lfloor>x\<rfloor> < (of_int b :: real)" using assms(2) by linarith
    then have "\<lfloor>x\<rfloor> < b" by simp
    then have "\<lfloor>x\<rfloor> + 1 \<le> b" by simp
    moreover have "round_even x = \<lfloor>x\<rfloor> \<or> round_even x = \<lfloor>x\<rfloor> + 1"
      by (simp add: round_even_def)
    ultimately show ?thesis using fl by auto
  qed
qed

lemma rnd_binade:
  assumes "2 powi k \<le> x" and "x \<le> 2 powi (k + 1)" and "- 1022 \<le> k" and "k \<le> 1022"
  shows "\<exists>m. rnd x = Num (of_int m * 2 powi (k - 52)) \<and> 2 ^ 52 \<le> m \<and> m \<le> 2 ^ 53"
proof (cases "x = 2 powi (k + 1)")
  case True
  have "rnd (of_int (2 ^ 52) * 2 powi (k - 51)) = Num (of_int (2 ^ 52) * 2 powi (k - 51))"
    using assms(3,4) by (intro rnd_exact_normal) simp_all
  moreover have "of_int (2 ^ 52) * (2::real) powi (k - 51) = 2 powi (k + 1)"
    by (rule pow2_mult_int) simp
  moreover have "of_int (2 ^ 53) * (2::real) powi (k - 52) = 2 powi (k + 1)"
    by (rule pow2_mult_int) simp
  ultimately have "rnd x = Num (of_int (2 ^ 53) * 2 powi (k - 52))"
    using True by simp
  then show ?thesis by (intro exI [of _ "2 ^ 53"]) simp
next
  case False
  with assms(2) have lt: "x < 2 powi (k + 1)" by simp
  have xp: "0 < x" using assms(1) zero_less_power_int [of "2::real" k] by linarith
  then have ax: "\<bar>x\<bar> = x" by simp
  have ex: "expo x = k - 52"
    using expo_normal [of k x] assms(1,3) lt ax by simp
  define m where "m = round_even (x / 2 powi (k - 52))"
  have p: "(0::real) < 2 powi (k - 52)" by simp
  have l: "of_int (2 ^ 52) \<le> x / 2 powi (k - 52)"
  proof -
    have "(2::real) ^ 52 * 2 powi (k - 52) = 2 powi k"
      by (rule pow2_mult) simp
    then show ?thesis using assms(1) p by (simp add: le_divide_eq)
  qed
  have u: "x / 2 powi (k - 52) \<le> of_int (2 ^ 53)"
  proof -
    have "(2::real) ^ 53 * 2 powi (k - 52) = 2 powi (k + 1)"
      by (rule pow2_mult) simp
    then show ?thesis using assms(2) p by (simp add: divide_le_eq)
  qed
  from round_even_bounds [OF l u] have mb: "2 ^ 52 \<le> m" "m \<le> 2 ^ 53"
    by (simp_all add: m_def)
  have yb: "of_int m * (2::real) powi (k - 52) \<le> 2 powi (k + 1)"
  proof -
    have "of_int m * (2::real) powi (k - 52) \<le> 2 ^ 53 * 2 powi (k - 52)"
      using mb(2) p by (intro mult_right_mono) simp_all
    also have "\<dots> = 2 powi (k + 1)"
      by (rule pow2_mult) simp
    finally show ?thesis .
  qed
  have "(2::real) powi (k + 1) < 2 powi 1024"
    using assms(4) by (intro power_int_strict_increasing) simp_all
  with yb have y1: "\<not> 2 powi 1024 \<le> of_int m * (2::real) powi (k - 52)" by linarith
  have "0 \<le> of_int m * (2::real) powi (k - 52)"
    using mb(1) by simp
  then have y2: "\<not> of_int m * (2::real) powi (k - 52) \<le> - (2 powi 1024)"
    using zero_less_power_int [of "2::real" 1024] by linarith
  have "rnd x = Num (of_int m * 2 powi (k - 52))"
    using y1 y2 unfolding rnd_def Let_def ex m_def by simp
  then show ?thesis using mb by blast
qed


lemma rnd_overflow:
  assumes "2 powi 1024 \<le> x"
  shows "rnd x = PosInf"
proof -
  have xp: "0 < x" using assms zero_less_power_int [of "2::real" 1024] by linarith
  define k where "k = \<lfloor>log 2 x\<rfloor>"
  have kb: "2 powi k \<le> x" "x < 2 powi (k + 1)"
    using floor_log2 [OF xp, of k] by (simp_all add: k_def)
  have k1024: "1024 \<le> k"
  proof (rule ccontr)
    assume "\<not> 1024 \<le> k"
    then have "k + 1 \<le> 1024" by simp
    then have "(2::real) powi (k + 1) \<le> 2 powi 1024"
      by (intro power_int_increasing) simp_all
    with kb(2) assms show False by linarith
  qed
  have ex: "expo x = k - 52"
    using expo_normal [of k x] kb k1024 xp by simp
  have p: "(0::real) < 2 powi (k - 52)" by simp
  have "of_int (2 ^ 52) \<le> x / 2 powi (k - 52)"
  proof -
    have "(2::real) ^ 52 * 2 powi (k - 52) = 2 powi k"
      by (rule pow2_mult) simp
    then show ?thesis using kb(1) p by (simp add: le_divide_eq)
  qed
  moreover have "x / 2 powi (k - 52) \<le> of_int (\<lceil>x / 2 powi (k - 52)\<rceil>)" by simp
  ultimately have m: "2 ^ 52 \<le> round_even (x / 2 powi (k - 52))"
    using round_even_bounds by blast
  have "(2::real) powi 1024 \<le> 2 powi k"
    using k1024 by (intro power_int_increasing) simp_all
  also have "\<dots> = 2 ^ 52 * 2 powi (k - 52)"
    by (rule pow2_mult [symmetric]) simp
  also have "\<dots> \<le> of_int (round_even (x / 2 powi (k - 52))) * 2 powi (k - 52)"
    using m p by (intro mult_right_mono) simp_all
  finally show ?thesis
    unfolding rnd_def Let_def ex by simp
qed

lemma rnd_nonneg:
  assumes "0 \<le> x"
  shows "rnd x = PosInf \<or> (\<exists>y. rnd x = Num y \<and> 0 \<le> y)"
proof -
  have "of_int 0 \<le> x / 2 powi expo x" using assms by simp
  moreover have "x / 2 powi expo x \<le> of_int \<lceil>x / 2 powi expo x\<rceil>" by simp
  ultimately have "0 \<le> round_even (x / 2 powi expo x)"
    using round_even_bounds by blast
  then have "0 \<le> of_int (round_even (x / 2 powi expo x)) * (2::real) powi expo x"
    by simp
  then show ?thesis
    unfolding rnd_def Let_def using zero_less_power_int [of "2::real" 1024]
    by (auto simp del: power_int_numeral)
qed


subsection \<open>Arithmetic on doubles\<close>

text \<open>
  IEEE 754 binary64 with rounding to nearest, ties to even.  A finite double is \<open>Num x\<close> with
  \<open>x\<close> a real number; the sign of zero is not represented.  Every operation rounds the exact
  result with \<open>rnd\<close>; the infinities and NaN follow the standard.  \<open>log\<close>, \<open>exp\<close> and \<open>sqrt\<close>
  are taken as correctly rounded.
\<close>

definition is_double :: "double \<Rightarrow> bool" where
  "is_double d = (case d of Num x \<Rightarrow> rnd x = Num x | _ \<Rightarrow> True)"

fun fneg :: "double \<Rightarrow> double" where
  "fneg (Num x) = Num (- x)"
| "fneg PosInf = NegInf"
| "fneg NegInf = PosInf"
| "fneg NaN = NaN"

fun fadd :: "double \<Rightarrow> double \<Rightarrow> double" where
  "fadd NaN _ = NaN"
| "fadd _ NaN = NaN"
| "fadd PosInf NegInf = NaN"
| "fadd NegInf PosInf = NaN"
| "fadd PosInf _ = PosInf"
| "fadd _ PosInf = PosInf"
| "fadd NegInf _ = NegInf"
| "fadd _ NegInf = NegInf"
| "fadd (Num x) (Num y) = rnd (x + y)"

definition fsub :: "double \<Rightarrow> double \<Rightarrow> double" where
  "fsub a b = fadd a (fneg b)"

fun fsgn :: "double \<Rightarrow> int" where
  "fsgn (Num x) = (if x < 0 then - 1 else if x = 0 then 0 else 1)"
| "fsgn PosInf = 1"
| "fsgn NegInf = - 1"
| "fsgn NaN = 0"

definition signed_inf :: "int \<Rightarrow> double" where
  "signed_inf s = (if s = 0 then NaN else if 0 < s then PosInf else NegInf)"

fun fmul :: "double \<Rightarrow> double \<Rightarrow> double" where
  "fmul NaN _ = NaN"
| "fmul _ NaN = NaN"
| "fmul (Num x) (Num y) = rnd (x * y)"
| "fmul a b = signed_inf (fsgn a * fsgn b)"

fun fdiv :: "double \<Rightarrow> double \<Rightarrow> double" where
  "fdiv NaN _ = NaN"
| "fdiv _ NaN = NaN"
| "fdiv (Num x) (Num y) = (if y = 0 then signed_inf (fsgn (Num x)) else rnd (x / y))"
| "fdiv (Num x) _ = Num 0"
| "fdiv a (Num y) = (if y < 0 then fneg a else a)"
| "fdiv _ _ = NaN"

definition flt :: "double \<Rightarrow> double \<Rightarrow> bool" where
  "flt a b =
     (case (a, b) of
        (Num x, Num y) \<Rightarrow> x < y
      | (Num x, PosInf) \<Rightarrow> True
      | (NegInf, Num y) \<Rightarrow> True
      | (NegInf, PosInf) \<Rightarrow> True
      | _ \<Rightarrow> False)"

definition feq :: "double \<Rightarrow> double \<Rightarrow> bool" where
  "feq a b \<longleftrightarrow> a \<noteq> NaN \<and> a = b"

definition fle :: "double \<Rightarrow> double \<Rightarrow> bool" where
  "fle a b \<longleftrightarrow> flt a b \<or> feq a b"

definition fgt :: "double \<Rightarrow> double \<Rightarrow> bool" where
  "fgt a b = flt b a"

fun flog :: "double \<Rightarrow> double" where
  "flog (Num x) = (if 0 < x then rnd (ln x) else if x = 0 then NegInf else NaN)"
| "flog PosInf = PosInf"
| "flog NegInf = NaN"
| "flog NaN = NaN"

fun fexp :: "double \<Rightarrow> double" where
  "fexp (Num x) = rnd (exp x)"
| "fexp PosInf = PosInf"
| "fexp NegInf = Num 0"
| "fexp NaN = NaN"

fun fsqrt :: "double \<Rightarrow> double" where
  "fsqrt (Num x) = (if 0 \<le> x then rnd (sqrt x) else NaN)"
| "fsqrt PosInf = PosInf"
| "fsqrt NegInf = NaN"
| "fsqrt NaN = NaN"


section \<open>Regular expressions with Python's backtracking order\<close>

type_synonym groups = "(nat \<times> string) list"

datatype re =
    Chr "char \<Rightarrow> bool"
  | Star "char \<Rightarrow> bool"
  | Seq re re
  | Alt re re
  | Opt re
  | Grp nat re

fun matches :: "re \<Rightarrow> string \<Rightarrow> (string \<times> string \<times> groups) list" where
  "matches (Chr p) [] = []"
| "matches (Chr p) (c # cs) = (if p c then [([c], cs, [])] else [])"
| "matches (Star p) [] = [([], [], [])]"
| "matches (Star p) (c # cs) =
     (if p c then map (\<lambda>(m, r, g). (c # m, r, g)) (matches (Star p) cs) else [])
     @ [([], c # cs, [])]"
| "matches (Seq a b) s =
     concat (map (\<lambda>(m1, r1, g1).
               map (\<lambda>(m2, r2, g2). (m1 @ m2, r2, g2 @ g1)) (matches b r1))
             (matches a s))"
| "matches (Alt a b) s = matches a s @ matches b s"
| "matches (Opt a) s = matches a s @ [([], s, [])]"
| "matches (Grp k a) s = map (\<lambda>(m, r, g). (m, r, (k, m) # g)) (matches a s)"

definition re_match :: "re \<Rightarrow> string \<Rightarrow> (string \<times> string \<times> groups) option" where
  "re_match pat s = (case matches pat s of [] \<Rightarrow> None | x # _ \<Rightarrow> Some x)"

definition re_fullmatch :: "re \<Rightarrow> string \<Rightarrow> (string \<times> string \<times> groups) option" where
  "re_fullmatch pat s = find (\<lambda>(m, r, g). r = []) (matches pat s)"

definition is_digit :: "char \<Rightarrow> bool" where
  "is_digit c \<longleftrightarrow> c \<in> set ''0123456789''"

definition is_space :: "char \<Rightarrow> bool" where
  "is_space c \<longleftrightarrow> c \<in> {CHR 0x09, CHR 0x0A, CHR 0x0B, CHR 0x0C, CHR 0x0D,
                       CHR 0x1C, CHR 0x1D, CHR 0x1E, CHR 0x1F, CHR 0x20, CHR 0x85, CHR 0xA0}"

definition lit :: "char \<Rightarrow> re" where
  "lit c = Chr (\<lambda>x. x = c)"

definition one_of :: "string \<Rightarrow> re" where
  "one_of cs = Chr (\<lambda>x. x \<in> set cs)"

definition one_or_more :: "(char \<Rightarrow> bool) \<Rightarrow> re" where
  "one_or_more p = Seq (Chr p) (Star p)"

definition number_pattern :: re where
  "number_pattern =
     Seq (Opt (lit CHR ''-''))
    (Seq (one_or_more is_digit)
    (Seq (Opt (Seq (lit CHR ''.'') (one_or_more is_digit)))
         (Opt (Seq (one_of ''eE'') (Seq (Opt (one_of ''-+'')) (one_or_more is_digit))))))"

definition range_body :: "nat \<Rightarrow> nat \<Rightarrow> re" where
  "range_body i j =
     Seq (Grp i number_pattern)
    (Seq (Star is_space)
    (Seq (lit CHR '','')
    (Seq (Star is_space) (Grp j number_pattern))))"

definition range_pattern :: re where
  "range_pattern = range_body 1 2"

definition token_pattern :: re where
  "token_pattern = Grp 1 (Alt (range_body 2 3) number_pattern)"


section \<open>Literal extraction: \<open>parse_expression\<close>\<close>

definition digit_char :: "nat \<Rightarrow> char" where
  "digit_char d = ''0123456789'' ! d"

function str_nat :: "nat \<Rightarrow> string" where
  "str_nat n = (if n < 10 then [digit_char n] else str_nat (n div 10) @ [digit_char (n mod 10)])"
  by pat_completeness auto
termination
  by (relation "measure id") auto

declare str_nat.simps [simp del]

type_synonym tokens = "(string \<times> string) list"

definition replace_token :: "string \<Rightarrow> nat \<times> tokens \<Rightarrow> string \<times> (nat \<times> tokens)" where
  "replace_token token st =
     (case st of (var_index, toks) \<Rightarrow>
        let var_name = ''var'' @ str_nat var_index
        in (var_name, (var_index + 1, toks @ [(var_name, token)])))"

lemma matches_split: "(m, r, g) \<in> set (matches pat s) \<Longrightarrow> s = m @ r"
  by (induction pat s arbitrary: m r g rule: matches.induct)
     (fastforce split: if_splits)+

lemma set_matches_Seq:
  "(m, r, g) \<in> set (matches (Seq a b) s) \<longleftrightarrow>
     (\<exists>m1 r1 g1 m2 g2. (m1, r1, g1) \<in> set (matches a s) \<and> (m2, r, g2) \<in> set (matches b r1)
        \<and> m = m1 @ m2 \<and> g = g2 @ g1)"
  by force

lemma set_matches_Chr:
  "(m, r, g) \<in> set (matches (Chr p) s) \<longleftrightarrow> (\<exists>c. s = c # r \<and> p c \<and> m = [c] \<and> g = [])"
  by (cases s) auto

lemma set_matches_Opt:
  "(m, r, g) \<in> set (matches (Opt a) s) \<longleftrightarrow>
     (m, r, g) \<in> set (matches a s) \<or> (m = [] \<and> r = s \<and> g = [])"
  by auto

lemma set_matches_Alt:
  "(m, r, g) \<in> set (matches (Alt a b) s) \<longleftrightarrow>
     (m, r, g) \<in> set (matches a s) \<or> (m, r, g) \<in> set (matches b s)"
  by auto

lemma set_matches_Grp:
  "(m, r, g) \<in> set (matches (Grp k a) s) \<longleftrightarrow>
     (\<exists>g'. (m, r, g') \<in> set (matches a s) \<and> g = (k, m) # g')"
  by force

lemma set_matches_Star:
  "(m, r, g) \<in> set (matches (Star p) s) \<longleftrightarrow> (s = m @ r \<and> (\<forall>c\<in>set m. p c) \<and> g = [])"
proof (induction s arbitrary: m)
  case Nil
  then show ?case by auto
next
  case (Cons c cs)
  show ?case
  proof (cases "p c")
    case True
    then show ?thesis using Cons by (cases m) auto
  next
    case False
    then show ?thesis by (cases m) auto
  qed
qed

lemma set_matches_one_or_more:
  "(m, r, g) \<in> set (matches (one_or_more p) s) \<longleftrightarrow>
     (s = m @ r \<and> m \<noteq> [] \<and> (\<forall>c\<in>set m. p c) \<and> g = [])"
  unfolding one_or_more_def set_matches_Seq set_matches_Chr set_matches_Star
  by (cases m) auto

lemma number_match_nonempty:
  "(m, r, g) \<in> set (matches number_pattern s) \<Longrightarrow> m \<noteq> []"
  unfolding number_pattern_def set_matches_Seq set_matches_one_or_more
  by auto

lemma token_match_nonempty:
  "(m, r, g) \<in> set (matches token_pattern s) \<Longrightarrow> m \<noteq> []"
  unfolding token_pattern_def range_body_def set_matches_Grp set_matches_Alt set_matches_Seq
  using number_match_nonempty by fastforce

lemma re_match_in_set:
  "re_match pat s = Some x \<Longrightarrow> x \<in> set (matches pat s)"
  by (auto simp: re_match_def split: list.splits)

lemma re_match_token_shorter:
  "re_match token_pattern s = Some (m, r, g) \<Longrightarrow> length r < length s"
  using re_match_in_set [of token_pattern s "(m, r, g)"]
    token_match_nonempty [of m r g s] matches_split [of m r g token_pattern s]
  by auto

function re_sub_tokens :: "string \<Rightarrow> nat \<times> tokens \<Rightarrow> string \<times> (nat \<times> tokens)" where
  "re_sub_tokens [] st = ([], st)"
| "re_sub_tokens (c # cs) st =
     (case re_match token_pattern (c # cs) of
        None \<Rightarrow> (case re_sub_tokens cs st of (out, st') \<Rightarrow> (c # out, st'))
      | Some mt \<Rightarrow>
          (case replace_token (fst mt) st of (var_name, st1) \<Rightarrow>
             (case re_sub_tokens (fst (snd mt)) st1 of (out, st2) \<Rightarrow> (var_name @ out, st2))))"
  by pat_completeness auto
termination
  by (relation "measure (\<lambda>(s, st). length s)")
     (auto dest: re_match_token_shorter)

text \<open>
  \<open>float(token)\<close> on the decimal strings that \<open>number_pattern\<close> produces: an optional minus
  sign, digits, an optional fraction and an optional exponent.  Python converts a decimal
  string to the nearest double, so the value is \<open>rnd\<close> of the exact decimal value (with overflow
  to an infinity).  \<open>None\<close> stands for every other string, where \<open>float\<close> raises \<open>ValueError\<close>
  or accepts a notation the pattern never yields.
\<close>

definition digit_val :: "char \<Rightarrow> nat" where
  "digit_val c = of_char c - 48"

definition digits_val :: "string \<Rightarrow> nat" where
  "digits_val ds = foldl (\<lambda>acc c. 10 * acc + digit_val c) 0 ds"

definition decimal_of :: "string \<Rightarrow> real option" where
  "decimal_of s =
     (let neg = (s \<noteq> [] \<and> hd s = CHR ''-'');
          s1 = (if neg then tl s else s);
          ip = takeWhile is_digit s1;
          s2 = dropWhile is_digit s1;
          has_fp = (s2 \<noteq> [] \<and> hd s2 = CHR ''.'');
          fp = (if has_fp then takeWhile is_digit (tl s2) else []);
          s3 = (if has_fp then dropWhile is_digit (tl s2) else s2);
          has_ex = (s3 \<noteq> [] \<and> hd s3 \<in> set ''eE'');
          s4 = (if has_ex then tl s3 else s3);
          has_sg = (has_ex \<and> s4 \<noteq> [] \<and> hd s4 \<in> set ''-+'');
          eneg = (has_sg \<and> hd s4 = CHR ''-'');
          s5 = (if has_sg then tl s4 else s4);
          ep = (if has_ex then takeWhile is_digit s5 else []);
          s6 = (if has_ex then dropWhile is_digit s5 else s5);
          mant = real (digits_val ip) + real (digits_val fp) / 10 ^ length fp;
          scale = (if eneg then 1 / 10 ^ digits_val ep else 10 ^ digits_val ep)
      in if ip = [] \<or> (has_fp \<and> fp = []) \<or> (has_ex \<and> ep = []) \<or> s6 \<noteq> [] then None
         else Some ((if neg then - mant else mant) * scale))"

definition float_of :: "string \<Rightarrow> double option" where
  "float_of s = map_option rnd (decimal_of s)"

datatype literal = ScalarLit double | RangeLit double double

datatype distribution = LogNormal | Normal

datatype error =
    RangeOrderError double double string
  | MalformedRangeError
  | InvalidDistributionError distribution string
  | ExpressionEvaluationError string
  | NotVectorizedError string
  | UncaughtException string

type_synonym var_values = "(string \<times> literal) list"

definition group :: "string \<times> string \<times> groups \<Rightarrow> nat \<Rightarrow> string option" where
  "group mt k = (if k = 0 then Some (fst mt) else map_of (snd (snd mt)) k)"

definition py_float :: "string option \<Rightarrow> error + double" where
  "py_float x =
     (case x of
        None \<Rightarrow> Inl (UncaughtException ''TypeError'')
      | Some s \<Rightarrow> (case float_of s of None \<Rightarrow> Inl (UncaughtException ''ValueError'') | Some v \<Rightarrow> Inr v))"

definition literal_of :: "string \<Rightarrow> error + literal" where
  "literal_of token =
     (case re_fullmatch range_pattern token of
        Some range_match \<Rightarrow>
          (case py_float (group range_match 1) of
             Inl e \<Rightarrow> Inl e
           | Inr a \<Rightarrow>
               (case py_float (group range_match 2) of
                  Inl e \<Rightarrow> Inl e
                | Inr b \<Rightarrow> if fgt a b then Inl (RangeOrderError a b token) else Inr (RangeLit a b)))
      | None \<Rightarrow>
          (case py_float (Some token) of Inl e \<Rightarrow> Inl e | Inr v \<Rightarrow> Inr (ScalarLit v)))"

fun build_var_values :: "tokens \<Rightarrow> var_values \<Rightarrow> error + var_values" where
  "build_var_values [] var_values = Inr var_values"
| "build_var_values ((var_name, token) # rest) var_values =
     (case literal_of token of
        Inl e \<Rightarrow> Inl e
      | Inr v \<Rightarrow> build_var_values rest (AList.update var_name v var_values))"

definition parse_expression :: "string \<Rightarrow> error + string \<times> var_values" where
  "parse_expression expr =
     (case re_sub_tokens expr (0, []) of
        (expression, (var_index, toks)) \<Rightarrow>
          (case build_var_values toks [] of
             Inl e \<Rightarrow> Inl e
           | Inr var_values \<Rightarrow>
               if CHR '','' \<in> set expression then Inl MalformedRangeError
               else Inr (expression, var_values)))"

section \<open>Sampling: \<open>generate_samples\<close>\<close>

text \<open>
  The random number generators of numpy and scipy are not part of the program.  Their state is
  a value of an arbitrary type \<open>'g\<close>; a standard normal draw and a draw from the standard normal
  distribution truncated to \<open>[a, b]\<close> are the two fields of \<open>random_lib\<close>.
  \<open>numpy.random.lognormal(mean, sigma, size)\<close> returns \<open>exp(mean + sigma * z)\<close> for \<open>size\<close>
  standard normal draws \<open>z\<close>.  \<open>scipy.stats.truncnorm.rvs(a, b, loc, scale, size)\<close> raises
  \<open>ValueError\<close> unless \<open>a < b\<close> and \<open>scale >= 0\<close>, and otherwise returns \<open>t * scale + loc\<close> for
  \<open>size\<close> standardised draws \<open>t\<close>.  All of it is double-precision arithmetic.
\<close>

record 'g random_lib =
  standard_normal :: "'g \<Rightarrow> double \<times> 'g"
  standard_truncnorm :: "double \<Rightarrow> double \<Rightarrow> 'g \<Rightarrow> double \<times> 'g"

fun draw_n :: "('g \<Rightarrow> double \<times> 'g) \<Rightarrow> nat \<Rightarrow> 'g \<Rightarrow> double list \<times> 'g" where
  "draw_n f 0 g = ([], g)"
| "draw_n f (Suc n) g =
     (case f g of (x, g1) \<Rightarrow> (case draw_n f n g1 of (xs, g2) \<Rightarrow> (x # xs, g2)))"

definition np_full :: "nat \<Rightarrow> double \<Rightarrow> double list" where
  "np_full n v = replicate n v"

definition np_random_lognormal ::
  "'g random_lib \<Rightarrow> double \<Rightarrow> double \<Rightarrow> nat \<Rightarrow> 'g \<Rightarrow> double list \<times> 'g" where
  "np_random_lognormal lib mu sigma n g =
     (case draw_n (standard_normal lib) n g of
        (zs, g') \<Rightarrow> (map (\<lambda>z. fexp (fadd mu (fmul sigma z))) zs, g'))"

definition truncnorm_rvs ::
  "'g random_lib \<Rightarrow> double \<Rightarrow> double \<Rightarrow> double \<Rightarrow> double \<Rightarrow> nat \<Rightarrow> 'g
     \<Rightarrow> error + double list \<times> 'g" where
  "truncnorm_rvs lib a b loc scale n g =
     (if flt a b \<and> fle (Num 0) scale then
        (case draw_n (standard_truncnorm lib a b) n g of
           (ts, g') \<Rightarrow> Inr (map (\<lambda>t. fadd (fmul t scale) loc) ts, g'))
      else Inl (UncaughtException ''ValueError''))"

type_synonym samples = "(string \<times> double list) list"

text \<open>The constant \<open>2 * 2.576\<close> of the program, in double precision.\<close>

definition two_z :: double where
  "two_z = fmul (Num 2) (rnd 2.576)"

definition sample_value ::
  "'g random_lib \<Rightarrow> string \<Rightarrow> literal \<Rightarrow> nat \<Rightarrow> 'g \<Rightarrow> error + double list \<times> 'g" where
  "sample_value lib var_name val num_samples g =
     (case val of
        RangeLit a b \<Rightarrow>
          if feq a b then Inr (np_full num_samples a, g)
          else if fgt a (Num 0) then
            (let sigma = fdiv (fsub (flog b) (flog a)) two_z
             in if fle sigma (Num 0) then Inl (InvalidDistributionError LogNormal var_name)
                else (let mu = fdiv (fadd (flog a) (flog b)) (Num 2)
                      in Inr (np_random_lognormal lib mu sigma num_samples g)))
          else
            (let mu = fdiv (fadd a b) (Num 2);
                 sigma = fdiv (fsub b a) two_z
             in if fle sigma (Num 0) then Inl (InvalidDistributionError Normal var_name)
                else (let lower = fdiv (fsub a mu) sigma;
                          upper = fdiv (fsub b mu) sigma
                      in truncnorm_rvs lib lower upper mu sigma num_samples g))
      | ScalarLit v \<Rightarrow> Inr (np_full num_samples v, g))"

fun generate_samples_loop ::
  "'g random_lib \<Rightarrow> var_values \<Rightarrow> nat \<Rightarrow> samples \<Rightarrow> 'g \<Rightarrow> error + samples \<times> 'g" where
  "generate_samples_loop lib [] num_samples samples g = Inr (samples, g)"
| "generate_samples_loop lib ((var_name, val) # rest) num_samples samples g =
     (case sample_value lib var_name val num_samples g of
        Inl e \<Rightarrow> Inl e
      | Inr (arr, g') \<Rightarrow>
          generate_samples_loop lib rest num_samples (AList.update var_name arr samples) g')"

definition generate_samples ::
  "'g random_lib \<Rightarrow> var_values \<Rightarrow> nat \<Rightarrow> 'g \<Rightarrow> error + samples \<times> 'g" where
  "generate_samples lib var_values num_samples g =
     generate_samples_loop lib var_values num_samples [] g"

section \<open>Evaluation: \<open>evaluate_expression\<close>\<close>

text \<open>
  The objects that the names of the evaluation namespace are bound to.  Python's \<open>eval\<close> is
  the interpreter's own and is a parameter of the model: it takes the expression text and the
  globals dictionary and returns an object, or the message of the exception it raised.
\<close>

datatype pyobj = NdArray "double list" | NumpyModule | EmptyDict | OtherObject

type_synonym namespace = "(string \<times> pyobj) list"

type_synonym py_eval = "string \<Rightarrow> namespace \<Rightarrow> string + pyobj"

definition dict_update :: "namespace \<Rightarrow> namespace \<Rightarrow> namespace" where
  "dict_update d other = foldl (\<lambda>acc (k, v). AList.update k v acc) d other"

definition allowed_names :: "samples \<Rightarrow> namespace" where
  "allowed_names samples =
     dict_update [(''np'', NumpyModule), (''__builtins__'', EmptyDict)]
       (map (\<lambda>(k, arr). (k, NdArray arr)) samples)"

definition replace_caret :: "string \<Rightarrow> string" where
  "replace_caret expression = concat (map (\<lambda>c. if c = CHR ''^'' then ''**'' else [c]) expression)"

definition evaluate_expression :: "py_eval \<Rightarrow> string \<Rightarrow> samples \<Rightarrow> error + pyobj" where
  "evaluate_expression ev expression samples =
     (case ev (replace_caret expression) (allowed_names samples) of
        Inl e \<Rightarrow> Inl (ExpressionEvaluationError e)
      | Inr result \<Rightarrow> Inr result)"

section \<open>Statistics and the command line: \<open>unsafe_main\<close>\<close>

text \<open>
  \<open>np.mean\<close>, \<open>np.std\<close> with its default \<open>ddof = 0\<close> and \<open>np.percentile\<close> with its default
  linear method, on a one-dimensional array of doubles: the mean is the sum divided by the
  length, the standard deviation the square root of the mean squared deviation, and the
  percentile interpolates between the two ranked neighbours of the position
  \<open>(n - 1) * (q / 100)\<close>; at or beyond the last position both neighbours are the last
  element and the weight is the position plus one.  A NaN in the array makes the percentile
  NaN.  On an empty array
  \<open>np.percentile\<close> raises: \<open>statistics\<close> is \<open>None\<close> there.
\<close>

definition np_mean :: "double list \<Rightarrow> double" where
  "np_mean xs = fdiv (foldl fadd (Num 0) xs) (Num (real (length xs)))"

definition np_std :: "double list \<Rightarrow> double" where
  "np_std xs =
     fsqrt (np_mean (map (\<lambda>x. fmul (fsub x (np_mean xs)) (fsub x (np_mean xs))) xs))"

fun insert_sorted :: "double \<Rightarrow> double list \<Rightarrow> double list" where
  "insert_sorted x [] = [x]"
| "insert_sorted x (y # ys) = (if flt y x then y # insert_sorted x ys else x # y # ys)"

definition np_sort :: "double list \<Rightarrow> double list" where
  "np_sort xs = foldr insert_sorted xs []"

definition lerp :: "double \<Rightarrow> double \<Rightarrow> double \<Rightarrow> double" where
  "lerp a b t =
     (if fle (Num (1 / 2)) t then fsub b (fmul (fsub b a) (fsub (Num 1) t))
      else fadd a (fmul (fsub b a) t))"

definition np_percentile :: "double list \<Rightarrow> real \<Rightarrow> double" where
  "np_percentile xs q =
     (if NaN \<in> set xs then NaN
      else
        (let srt = np_sort xs;
             n = length xs;
             virtual = fmul (Num (real (n - 1))) (rnd (q / 100))
         in case virtual of
              Num v \<Rightarrow>
                if real (n - 1) \<le> v
                then lerp (srt ! (n - 1)) (srt ! (n - 1)) (fsub virtual (Num (- 1)))
                else if v < 0
                then lerp (srt ! 0) (srt ! 0) (fsub virtual (Num 0))
                else lerp (srt ! nat \<lfloor>v\<rfloor>) (srt ! (nat \<lfloor>v\<rfloor> + 1))
                       (fsub virtual (Num (of_int \<lfloor>v\<rfloor>)))
            | _ \<Rightarrow> NaN))"

record stats =
  mean :: double
  std_dev :: double
  ci_lower :: double
  ci_upper :: double

definition statistics :: "double list \<Rightarrow> stats option" where
  "statistics result =
     (if result = [] then None
      else Some \<lparr>mean = np_mean result, std_dev = np_std result,
                 ci_lower = np_percentile result 1, ci_upper = np_percentile result 99\<rparr>)"

record args =
  expression :: string
  num_samples :: nat
  want_mean :: bool
  want_std :: bool
  want_ci :: bool

datatype out_item = Mean double | Std double | CI double double | All double double double double

definition outputs_of :: "args \<Rightarrow> stats \<Rightarrow> out_item list" where
  "outputs_of a st =
     (if want_mean a \<or> want_std a \<or> want_ci a then
        (if want_mean a then [Mean (mean st)] else []) @
        (if want_std a then [Std (std_dev st)] else []) @
        (if want_ci a then [CI (ci_lower st) (ci_upper st)] else [])
      else [All (mean st) (std_dev st) (ci_lower st) (ci_upper st)])"

definition unsafe_main ::
  "'g random_lib \<Rightarrow> py_eval \<Rightarrow> args \<Rightarrow> 'g \<Rightarrow> error + out_item list" where
  "unsafe_main lib ev a g =
     (case parse_expression (expression a) of
        Inl e \<Rightarrow> Inl e
      | Inr (expr', var_values) \<Rightarrow>
          (case generate_samples lib var_values (num_samples a) g of
             Inl e \<Rightarrow> Inl e
           | Inr (samples, g') \<Rightarrow>
               (case evaluate_expression ev expr' samples of
                  Inl e \<Rightarrow> Inl e
                | Inr (NdArray result) \<Rightarrow>
                    (case statistics result of
                       None \<Rightarrow> Inl (UncaughtException ''IndexError'')
                     | Some st \<Rightarrow> Inr (outputs_of a st))
                | Inr _ \<Rightarrow> Inl (NotVectorizedError (expression a)))))"

section \<open>Notions used in the statements\<close>

text \<open>
  \<open>const_lib\<close> is a deterministic instance of the random library, with a counter as generator
  state, for instantiating theorems on concrete inputs.  A literal is constant when it is a
  scalar or a range whose bounds are equal.  \<open>ln_mu\<close>, \<open>ln_sigma\<close>, \<open>tn_mu\<close>, \<open>tn_sigma\<close>,
  \<open>tn_lower\<close> and \<open>tn_upper\<close> are the distribution parameters as the specification words
  them, evaluated in double precision.  \<open>big i\<close> enumerates the doubles of the binade
  \<open>[2^53, 2^54)\<close>.
\<close>

definition const_lib :: "nat random_lib" where
  "const_lib = \<lparr>standard_normal = (\<lambda>g. (Num (- 3), g + 1)),
                 standard_truncnorm = (\<lambda>a b g. (a, g + 1))\<rparr>"

definition constant_literal :: "literal \<Rightarrow> bool" where
  "constant_literal val = (case val of ScalarLit v \<Rightarrow> True | RangeLit a b \<Rightarrow> feq a b)"

definition ln_mu :: "double \<Rightarrow> double \<Rightarrow> double" where
  "ln_mu a b = fdiv (fadd (flog a) (flog b)) (Num 2)"

definition ln_sigma :: "double \<Rightarrow> double \<Rightarrow> double" where
  "ln_sigma a b = fdiv (fsub (flog b) (flog a)) two_z"





definition big :: "nat \<Rightarrow> double" where
  "big i = Num (of_int (2 ^ 52 + int i) * 2 powi 1)"

section \<open>Statistics of a one-element array\<close>

lemma rnd_1 [simp]: "rnd 1 = Num 1"
  using rnd_exact_normal [of "2 ^ 52" "- 52"] by simp

lemma is_double_rnd: "is_double (Num x) \<Longrightarrow> rnd x = Num x"
  by (simp add: is_double_def)

lemma fadd_0_left: "is_double d \<Longrightarrow> fadd (Num 0) d = d"
  by (cases d) (simp_all add: is_double_def)

lemma fdiv_1: "is_double d \<Longrightarrow> fdiv d (Num 1) = d"
  by (cases d) (simp_all add: is_double_def)

lemma np_mean_single: "is_double d \<Longrightarrow> np_mean [d] = d"
  by (simp add: np_mean_def fadd_0_left fdiv_1)

lemma fsub_self: "fsub (Num x) (Num x) = Num 0"
  by (simp add: fsub_def)

lemma np_std_single:
  assumes "is_double (Num x)"
  shows "np_std [Num x] = Num 0"
proof -
  have m: "np_mean [Num x] = Num x" by (rule np_mean_single [OF assms])
  have z: "is_double (Num 0)" by (simp add: is_double_def)
  have "np_std [Num x] = fsqrt (np_mean [fmul (fsub (Num x) (Num x)) (fsub (Num x) (Num x))])"
    unfolding np_std_def m by simp
  also have "\<dots> = fsqrt (np_mean [Num 0])" by (simp add: fsub_self)
  also have "\<dots> = Num 0" by (simp add: np_mean_single [OF z])
  finally show ?thesis .
qed

lemma lerp_same_one: "is_double (Num x) \<Longrightarrow> lerp (Num x) (Num x) (Num 1) = Num x"
  by (simp add: lerp_def fle_def flt_def feq_def fsub_def is_double_def)

lemma rnd_percent_finite: "\<exists>r. rnd (1 / 100) = Num r" "\<exists>r. rnd (99 / 100) = Num r"
proof -
  have "\<exists>m. rnd (1 / 100) = Num (of_int m * 2 powi (- 7 - 52)) \<and> 2 ^ 52 \<le> m \<and> m \<le> 2 ^ 53"
    by (rule rnd_binade) simp_all
  then show "\<exists>r. rnd (1 / 100) = Num r" by blast
  have "\<exists>m. rnd (99 / 100) = Num (of_int m * 2 powi (- 1 - 52)) \<and> 2 ^ 52 \<le> m \<and> m \<le> 2 ^ 53"
    by (rule rnd_binade) simp_all
  then show "\<exists>r. rnd (99 / 100) = Num r" by blast
qed

lemma np_percentile_single:
  assumes "is_double (Num x)" and "rnd (q / 100) = Num r"
  shows "np_percentile [Num x] q = Num x"
proof -
  have v: "fmul (Num (real (length [Num x] - 1))) (rnd (q / 100)) = Num 0"
    by (simp add: assms(2))
  have t: "fsub (Num 0) (Num (- 1)) = Num 1" by (simp add: fsub_def)
  show ?thesis
    unfolding np_percentile_def Let_def v
    using lerp_same_one [OF assms(1)] by (simp add: np_sort_def t)
qed

lemma stats_single:
  assumes "is_double (Num x)"
  shows "statistics [Num x] = Some \<lparr>mean = Num x, std_dev = Num 0, ci_lower = Num x, ci_upper = Num x\<rparr>"
proof -
  obtain r1 r2 where "rnd (1 / 100) = Num r1" "rnd (99 / 100) = Num r2"
    using rnd_percent_finite by blast
  then show ?thesis
    by (simp add: statistics_def np_mean_single [OF assms] np_std_single [OF assms]
      np_percentile_single [OF assms])
qed

lemma stats_inf:
  "statistics [PosInf] = Some \<lparr>mean = PosInf, std_dev = NaN, ci_lower = NaN, ci_upper = NaN\<rparr>"
proof -
  obtain r1 r2 where r: "rnd (1 / 100) = Num r1" "rnd (99 / 100) = Num r2"
    using rnd_percent_finite by blast
  have m: "np_mean [PosInf] = PosInf" by (simp add: np_mean_def)
  have s: "np_std [PosInf] = NaN" by (simp add: np_std_def m fsub_def np_mean_def)
  have p1: "np_percentile [PosInf] 1 = NaN"
    unfolding np_percentile_def Let_def
    by (simp add: r np_sort_def lerp_def fsub_def)
  have p2: "np_percentile [PosInf] 99 = NaN"
    unfolding np_percentile_def Let_def
    by (simp add: r np_sort_def lerp_def fsub_def)
  show ?thesis by (simp add: statistics_def m s p1 p2)
qed

section \<open>Exact and degenerate roundings\<close>



lemma two_z_bounds: "\<exists>c. two_z = Num c \<and> 4 \<le> c \<and> c \<le> 8"
proof -
  have "\<exists>m. rnd 2.576 = Num (of_int m * 2 powi (1 - 52)) \<and> 2 ^ 52 \<le> m \<and> m \<le> 2 ^ 53"
    by (rule rnd_binade) simp_all
  then obtain m where r: "rnd 2.576 = Num (of_int m * 2 powi (1 - 52))"
    and mb: "2 ^ 52 \<le> m" "m \<le> 2 ^ 53" by blast
  define r where "r = of_int m * (2::real) powi (1 - 52)"
  have p: "(0::real) < 2 powi (1 - 52)" by (rule zero_less_power_int) simp
  have rl: "2 \<le> r"
  proof -
    have "(2::real) ^ 52 * 2 powi (1 - 52) = 2 powi 1" by (rule pow2_mult) simp
    moreover have "(2::real) ^ 52 * 2 powi (1 - 52) \<le> of_int m * 2 powi (1 - 52)"
      using mb(1) p by (intro mult_right_mono) simp_all
    ultimately show ?thesis by (simp add: r_def)
  qed
  have ru: "r \<le> 4"
  proof -
    have "(2::real) ^ 53 * 2 powi (1 - 52) = 2 powi 2" by (rule pow2_mult) simp
    moreover have "of_int m * 2 powi (1 - 52) \<le> (2::real) ^ 53 * 2 powi (1 - 52)"
      using mb(2) p by (intro mult_right_mono) simp_all
    ultimately show ?thesis by (simp add: r_def)
  qed
  have "\<exists>m'. rnd (2 * r) = Num (of_int m' * 2 powi (2 - 52)) \<and> 2 ^ 52 \<le> m' \<and> m' \<le> 2 ^ 53"
    using rl ru by (intro rnd_binade) simp_all
  then obtain m' where c: "rnd (2 * r) = Num (of_int m' * 2 powi (2 - 52))"
    and mb': "2 ^ 52 \<le> m'" "m' \<le> 2 ^ 53" by blast
  define c where "c = of_int m' * (2::real) powi (2 - 52)"
  have p': "(0::real) < 2 powi (2 - 52)" by (rule zero_less_power_int) simp
  have cl: "4 \<le> c"
  proof -
    have "(2::real) ^ 52 * 2 powi (2 - 52) = 2 powi 2" by (rule pow2_mult) simp
    moreover have "(2::real) ^ 52 * 2 powi (2 - 52) \<le> of_int m' * 2 powi (2 - 52)"
      using mb'(1) p' by (intro mult_right_mono) simp_all
    ultimately show ?thesis by (simp add: c_def)
  qed
  have cu: "c \<le> 8"
  proof -
    have "(2::real) ^ 53 * 2 powi (2 - 52) = 2 powi 3" by (rule pow2_mult) simp
    moreover have "of_int m' * 2 powi (2 - 52) \<le> (2::real) ^ 53 * 2 powi (2 - 52)"
      using mb'(2) p' by (intro mult_right_mono) simp_all
    ultimately show ?thesis by (simp add: c_def)
  qed
  have "two_z = Num c"
    unfolding two_z_def r r_def [symmetric] using c by (simp add: c_def)
  then show ?thesis using cl cu by blast
qed


section \<open>From one placeholder to the whole table\<close>

lemma length_draw_n: "draw_n f n g = (xs, g') \<Longrightarrow> length xs = n"
  by (induction n arbitrary: g xs g') (auto split: prod.splits)


lemma length_lognormal: "np_random_lognormal lib mu sigma n g = (arr, g') \<Longrightarrow> length arr = n"
  by (auto simp: np_random_lognormal_def split: prod.splits dest: length_draw_n)







lemma loop_lookup_other:
  "generate_samples_loop lib vv n acc g = Inr (res, g') \<Longrightarrow> k \<notin> fst ` set vv
     \<Longrightarrow> map_of res k = map_of acc k"
proof (induction vv arbitrary: acc g)
  case Nil
  then show ?case by simp
next
  case (Cons kv vv)
  obtain k' val where kv: "kv = (k', val)" by (cases kv)
  from Cons.prems(1) kv obtain arr g1 where
    rest: "generate_samples_loop lib vv n (AList.update k' arr acc) g1 = Inr (res, g')"
    by (auto split: sum.splits)
  from Cons.prems(2) kv have "k \<noteq> k'" "k \<notin> fst ` set vv" by auto
  with Cons.IH [OF rest] show ?case by (simp add: update_conv')
qed

lemma loop_lookup_entry:
  "generate_samples_loop lib vv n acc g = Inr (res, g') \<Longrightarrow> distinct (map fst vv)
     \<Longrightarrow> (k, val) \<in> set vv
     \<Longrightarrow> \<exists>g0 arr g1. sample_value lib k val n g0 = Inr (arr, g1) \<and> map_of res k = Some arr"
proof (induction vv arbitrary: acc g)
  case Nil
  then show ?case by simp
next
  case (Cons kv vv)
  obtain k' val' where kv: "kv = (k', val')" by (cases kv)
  from Cons.prems(1) kv obtain arr g1 where
    sv: "sample_value lib k' val' n g = Inr (arr, g1)"
    and rest: "generate_samples_loop lib vv n (AList.update k' arr acc) g1 = Inr (res, g')"
    by (auto split: sum.splits)
  show ?case
  proof (cases "(k, val) = (k', val')")
    case True
    from Cons.prems(2) kv have "k' \<notin> fst ` set vv" by auto
    from loop_lookup_other [OF rest this] have "map_of res k' = Some arr"
      by (simp add: update_conv')
    with sv True show ?thesis by blast
  next
    case False
    with Cons.prems(3) kv have "(k, val) \<in> set vv" by auto
    moreover from Cons.prems(2) have "distinct (map fst vv)" by simp
    ultimately show ?thesis using Cons.IH [OF rest] by blast
  qed
qed


section \<open>Constant arrays\<close>

lemma sample_value_constant:
  "constant_literal val \<Longrightarrow>
     sample_value lib k val n g =
       Inr (replicate n (case val of ScalarLit v \<Rightarrow> v | RangeLit a b \<Rightarrow> a), g)"
  by (cases val) (simp_all add: constant_literal_def sample_value_def np_full_def)

lemma loop_constant_returns:
  "list_all (\<lambda>(k, val). constant_literal val) vv \<Longrightarrow>
     \<exists>res. generate_samples_loop lib vv n acc g = Inr (res, g)"
proof (induction vv arbitrary: acc)
  case Nil
  then show ?case by simp
next
  case (Cons kv vv)
  obtain k val where kv: "kv = (k, val)" by (cases kv)
  with Cons.prems have c: "constant_literal val" and r: "list_all (\<lambda>(k, val). constant_literal val) vv"
    by simp_all
  show ?case using Cons.IH [OF r] kv sample_value_constant [OF c, of lib k n g] by simp
qed

text \<open>
  Claim C4.  Whenever the sampler returns, the array stored for a scalar literal \<open>v\<close> is \<open>n\<close>
  copies of \<open>v\<close>, and the array stored for a degenerate range \<open>(a, a)\<close> is \<open>n\<close> copies of \<open>a\<close>,
  whatever the sign of \<open>a\<close> (\<open>fle a a\<close> is the range invariant \<open>low \<le> high\<close>; it only excludes
  NaN).  On a table of scalars and degenerate ranges the sampler always returns and leaves the
  generator state untouched: no random draw is made.
\<close>

theorem constant_arrays:
  assumes "distinct (map fst var_values)"
  shows "(\<forall>samples g'. generate_samples lib var_values n g = Inr (samples, g') \<longrightarrow>
            ((k, ScalarLit v) \<in> set var_values \<longrightarrow> map_of samples k = Some (replicate n v)) \<and>
            ((k, RangeLit a a) \<in> set var_values \<and> fle a a \<longrightarrow> map_of samples k = Some (replicate n a)))
         \<and> (list_all (\<lambda>(k, val). constant_literal val) var_values \<longrightarrow>
              (\<exists>samples. generate_samples lib var_values n g = Inr (samples, g)))"
proof (intro conjI allI impI)
  fix samples g'
  assume r: "generate_samples lib var_values n g = Inr (samples, g')"
  then have l: "generate_samples_loop lib var_values n [] g = Inr (samples, g')"
    by (simp add: generate_samples_def)
  {
    assume "(k, ScalarLit v) \<in> set var_values"
    from loop_lookup_entry [OF l assms this]
    show "map_of samples k = Some (replicate n v)"
      by (auto simp: sample_value_def np_full_def)
  next
    assume "(k, RangeLit a a) \<in> set var_values \<and> fle a a"
    then have m: "(k, RangeLit a a) \<in> set var_values" and "feq a a"
      by (auto simp: fle_def flt_def feq_def split: double.splits)
    from loop_lookup_entry [OF l assms m] \<open>feq a a\<close>
    show "map_of samples k = Some (replicate n a)"
      by (auto simp: sample_value_def np_full_def)
  }
next
  assume "list_all (\<lambda>(k, val). constant_literal val) var_values"
  from loop_constant_returns [OF this, of lib n "[]" g]
  show "\<exists>samples. generate_samples lib var_values n g = Inr (samples, g)"
    by (simp add: generate_samples_def)
qed

theorem constant_arrays_witness:
  "distinct (map fst [(''var0'', ScalarLit (Num 2)), (''var1'', RangeLit (Num (- 3)) (Num (- 3)))])
   \<and> generate_samples const_lib
        [(''var0'', ScalarLit (Num 2)), (''var1'', RangeLit (Num (- 3)) (Num (- 3)))] 2 0
       = Inr ([(''var0'', [Num 2, Num 2]), (''var1'', [Num (- 3), Num (- 3)])], 0)
   \<and> map_of [(''var0'', [Num 2, Num 2]), (''var1'', [Num (- 3), Num (- 3)])] ''var1''
       = Some (replicate 2 (Num (- 3)))"
proof -
  let ?T = "[(''var0'', ScalarLit (Num 2)), (''var1'', RangeLit (Num (- 3)) (Num (- 3)))]"
  let ?S = "[(''var0'', [Num 2, Num 2]), (''var1'', [Num (- 3), Num (- 3)])]"
  have d: "distinct (map fst ?T)" by simp
  have r: "generate_samples const_lib ?T 2 0 = Inr (?S, 0)"
    by (simp add: generate_samples_def sample_value_def np_full_def feq_def numeral_2_eq_2)
  have "fle (Num (- 3)) (Num (- 3))" by (simp add: fle_def feq_def)
  with constant_arrays [OF d, of const_lib 2 0 "''var1''" "Num 2" "Num (- 3)"] r
  have "map_of ?S ''var1'' = Some (replicate 2 (Num (- 3)))"
    by simp
  with d r show ?thesis by blast
qed



section \<open>The two random branches\<close>

lemma flt_not_feq: "flt a b \<Longrightarrow> \<not> feq a b"
  by (auto simp: flt_def feq_def split: double.splits)


lemma sample_value_lognormal:
  assumes "flt (Num 0) a" and "flt a b"
  shows "sample_value lib k (RangeLit a b) n g =
           (if fle (ln_sigma a b) (Num 0) then Inl (InvalidDistributionError LogNormal k)
            else Inr (np_random_lognormal lib (ln_mu a b) (ln_sigma a b) n g))"
  using assms flt_not_feq [OF assms(2)]
  by (simp add: sample_value_def Let_def ln_mu_def ln_sigma_def fgt_def)


lemma fexp_not_negative: "\<not> flt (fexp d) (Num 0)"
proof (cases d)
  case (Num x)
  have "0 \<le> exp x" by simp
  from rnd_nonneg [OF this] show ?thesis using Num by (auto simp: flt_def)
qed (simp_all add: flt_def)

lemma lognormal_not_negative:
  "np_random_lognormal lib mu sigma n g = (arr, g') \<Longrightarrow> x \<in> set arr \<Longrightarrow> \<not> flt x (Num 0)"
  by (auto simp: np_random_lognormal_def fexp_not_negative split: prod.splits)

lemma single_entry:
  "generate_samples lib [(k, val)] n g =
     (case sample_value lib k val n g of Inl e \<Rightarrow> Inl e | Inr (arr, g') \<Rightarrow> Inr ([(k, arr)], g'))"
  by (simp add: generate_samples_def split: sum.splits)

text \<open>
  Claim C1, as amended.  For a range \<open>(a, b)\<close> with \<open>0 < a < b\<close> the sampler takes the log-normal
  branch with \<open>mu = (ln a + ln b) / 2\<close> and \<open>sigma = (ln b - ln a) / (2 * 2.576)\<close> computed in
  double precision.  If that \<open>sigma\<close> is \<open>\<le> 0\<close> (the two logarithms round to the same double)
  the sampler exits with the invalid-distribution error; otherwise the placeholder's array is
  \<open>numpy.random.lognormal(mu, sigma, n)\<close>, it has \<open>n\<close> entries and no entry is negative
  (an entry can underflow to zero).
\<close>

theorem lognormal_branch:
  assumes "distinct (map fst var_values)" and "(k, RangeLit a b) \<in> set var_values"
    and "flt (Num 0) a" and "flt a b"
  shows "(\<forall>samples g'. generate_samples lib var_values n g = Inr (samples, g') \<longrightarrow>
            \<not> fle (ln_sigma a b) (Num 0) \<and>
            (\<exists>g0 arr g1. np_random_lognormal lib (ln_mu a b) (ln_sigma a b) n g0 = (arr, g1)
               \<and> map_of samples k = Some arr \<and> length arr = n
               \<and> (\<forall>x \<in> set arr. \<not> flt x (Num 0))))
         \<and> generate_samples lib [(k, RangeLit a b)] n g =
             (if fle (ln_sigma a b) (Num 0) then Inl (InvalidDistributionError LogNormal k)
              else Inr ([(k, fst (np_random_lognormal lib (ln_mu a b) (ln_sigma a b) n g))],
                        snd (np_random_lognormal lib (ln_mu a b) (ln_sigma a b) n g)))"
proof (intro conjI allI impI)
  fix samples g'
  assume "generate_samples lib var_values n g = Inr (samples, g')"
  then have l: "generate_samples_loop lib var_values n [] g = Inr (samples, g')"
    by (simp add: generate_samples_def)
  from loop_lookup_entry [OF l assms(1,2)] obtain g0 arr g1 where
    sv: "sample_value lib k (RangeLit a b) n g0 = Inr (arr, g1)" and m: "map_of samples k = Some arr"
    by blast
  from sv show "\<not> fle (ln_sigma a b) (Num 0)"
    by (simp add: sample_value_lognormal [OF assms(3,4)] split: if_splits)
  from sv have ln: "np_random_lognormal lib (ln_mu a b) (ln_sigma a b) n g0 = (arr, g1)"
    by (simp add: sample_value_lognormal [OF assms(3,4)] split: if_splits)
  have "length arr = n" using ln by (rule length_lognormal)
  moreover have "\<forall>x \<in> set arr. \<not> flt x (Num 0)"
    using lognormal_not_negative [OF ln] by blast
  ultimately show "\<exists>g0 arr g1. np_random_lognormal lib (ln_mu a b) (ln_sigma a b) n g0 = (arr, g1)
               \<and> map_of samples k = Some arr \<and> length arr = n
               \<and> (\<forall>x \<in> set arr. \<not> flt x (Num 0))"
    using ln m by blast
next
  show "generate_samples lib [(k, RangeLit a b)] n g =
             (if fle (ln_sigma a b) (Num 0) then Inl (InvalidDistributionError LogNormal k)
              else Inr ([(k, fst (np_random_lognormal lib (ln_mu a b) (ln_sigma a b) n g))],
                        snd (np_random_lognormal lib (ln_mu a b) (ln_sigma a b) n g)))"
    by (simp add: single_entry sample_value_lognormal [OF assms(3,4)] split: prod.splits)
qed


section \<open>Logarithms of a binade\<close>

lemma ln2_lower: "32 / 53 < ln (2::real)"
proof -
  have "exp (32 / 53 :: real) \<le> 1 + 32 / 53 + (32 / 53)\<^sup>2"
    by (rule exp_bound) simp_all
  also have "\<dots> < 2" by (simp add: power2_eq_square)
  finally have "exp (32 / 53 :: real) < exp (ln 2)" by simp
  then show ?thesis by (simp only: exp_less_cancel_iff)
qed

lemma ln2_upper: "ln (2::real) < 20 / 27"
proof -
  have "(2::real) < 1 + 20 / 27 + (20 / 27)\<^sup>2 / 2" by (simp add: power2_eq_square)
  also have "\<dots> \<le> exp (20 / 27)"
    by (rule exp_lower_Taylor_quadratic) simp
  finally have "exp (ln 2) < exp (20 / 27 :: real)" by simp
  then show ?thesis by (simp only: exp_less_cancel_iff)
qed

lemma rnd_grid:
  assumes "of_int j1 * 2 powi (k - 52) \<le> x" and "x \<le> of_int j2 * 2 powi (k - 52)"
    and "2 ^ 52 \<le> j1" and "j2 < 2 ^ 53" and "- 1022 \<le> k" and "k \<le> 1022"
  shows "\<exists>m. rnd x = Num (of_int m * 2 powi (k - 52)) \<and> j1 \<le> m \<and> m \<le> j2"
proof -
  have p: "(0::real) < 2 powi (k - 52)" by (rule zero_less_power_int) simp
  have lo: "2 powi k \<le> x"
  proof -
    have "(2::real) ^ 52 * 2 powi (k - 52) = 2 powi k" by (rule pow2_mult) simp
    moreover have "(2::real) ^ 52 * 2 powi (k - 52) \<le> of_int j1 * 2 powi (k - 52)"
      using assms(3) p by (intro mult_right_mono) simp_all
    ultimately show ?thesis using assms(1) by linarith
  qed
  have hi: "x < 2 powi (k + 1)"
  proof -
    have "(2::real) ^ 53 * 2 powi (k - 52) = 2 powi (k + 1)" by (rule pow2_mult) simp
    moreover have "of_int j2 * 2 powi (k - 52) < (2::real) ^ 53 * 2 powi (k - 52)"
      using assms(4) p by (intro mult_strict_right_mono) simp_all
    ultimately show ?thesis using assms(2) by linarith
  qed
  have xp: "0 < x" using lo zero_less_power_int [of "2::real" k] by linarith
  have ex: "expo x = k - 52"
    using expo_normal [of k x] lo hi assms(5) xp by simp
  define m where "m = round_even (x / 2 powi (k - 52))"
  have l: "of_int j1 \<le> x / 2 powi (k - 52)"
    using assms(1) p by (simp add: le_divide_eq)
  have u: "x / 2 powi (k - 52) \<le> of_int j2"
    using assms(2) p by (simp add: divide_le_eq)
  from round_even_bounds [OF l u] have mb: "j1 \<le> m" "m \<le> j2" by (simp_all add: m_def)
  have yb: "of_int m * (2::real) powi (k - 52) < 2 powi (k + 1)"
  proof -
    have "of_int m * (2::real) powi (k - 52) < 2 ^ 53 * 2 powi (k - 52)"
      using mb(2) assms(4) p by (intro mult_strict_right_mono) simp_all
    also have "\<dots> = 2 powi (k + 1)" by (rule pow2_mult) simp
    finally show ?thesis .
  qed
  have "(2::real) powi (k + 1) \<le> 2 powi 1024"
    using assms(6) by (intro power_int_increasing) simp_all
  with yb have y1: "\<not> 2 powi 1024 \<le> of_int m * (2::real) powi (k - 52)" by linarith
  have "(0::int) \<le> 2 ^ 52" by simp
  then have "0 \<le> m" using mb(1) assms(3) by linarith
  then have "0 \<le> of_int m * (2::real) powi (k - 52)" by simp
  then have y2: "\<not> of_int m * (2::real) powi (k - 52) \<le> - (2 powi 1024)"
    using zero_less_power_int [of "2::real" 1024] by linarith
  have "rnd x = Num (of_int m * 2 powi (k - 52))"
    using y1 y2 unfolding rnd_def Let_def ex m_def by simp
  then show ?thesis using mb by blast
qed

text \<open>The doubles of the binade \<open>[2^53, 2^54)\<close> are the even integers \<open>2 * (2^52 + i)\<close>.\<close>

lemma big_double: "i < 2 ^ 52 \<Longrightarrow> is_double (big i)"
  unfolding big_def is_double_def
  by (simp only: double.case) (rule rnd_exact_normal, simp_all)

lemma big_value: "big i = Num (2 ^ 53 + 2 * real i)"
  by (simp add: big_def algebra_simps)

lemma flog_big:
  assumes "i < 2 ^ 52"
  shows "\<exists>m. flog (big i) = Num (of_int m * 2 powi (- 47)) \<and> 2 ^ 52 \<le> m \<and> m \<le> 5 * 2 ^ 50"
proof -
  define x :: real where "x = 2 ^ 53 + 2 * real i"
  have xl: "2 ^ 53 \<le> x" by (simp add: x_def)
  have xu: "x \<le> 2 ^ 54" using assms by (simp add: x_def)
  have xp: "0 < x" using xl by (simp add: x_def)
  have e53: "ln ((2::real) ^ 53) = 53 * ln 2" using ln_realpow [of "2::real" 53] by simp
  have e54: "ln ((2::real) ^ 54) = 54 * ln 2" using ln_realpow [of "2::real" 54] by simp
  have "ln ((2::real) ^ 53) \<le> ln x" using xl xp by (subst ln_le_cancel_iff) simp_all
  then have l1: "53 * ln 2 \<le> ln x" unfolding e53 .
  have "ln x \<le> ln ((2::real) ^ 54)" using xu xp by (subst ln_le_cancel_iff) simp_all
  then have u1: "ln x \<le> 54 * ln 2" unfolding e54 .
  have l2: "32 \<le> ln x" using l1 ln2_lower by simp
  have u2: "ln x \<le> 40" using u1 ln2_upper by simp
  have g1: "of_int (2 ^ 52) * (2::real) powi (5 - 52) = 32"
  proof -
    have "of_int (2 ^ 52) * (2::real) powi (5 - 52) = 2 powi 5" by (rule pow2_mult_int) simp
    then show ?thesis by simp
  qed
  have g2: "of_int (5 * 2 ^ 50) * (2::real) powi (5 - 52) = 40"
  proof -
    have "of_int (2 ^ 50) * (2::real) powi (5 - 52) = 2 powi 3" by (rule pow2_mult_int) simp
    then show ?thesis by simp
  qed
  have "\<exists>m. rnd (ln x) = Num (of_int m * 2 powi (5 - 52)) \<and> 2 ^ 52 \<le> m \<and> m \<le> 5 * 2 ^ 50"
    using l2 u2 g1 g2 by (intro rnd_grid) simp_all
  then show ?thesis using xp by (simp add: big_value x_def)
qed

lemma log_collision:
  "\<exists>i j. i < j \<and> j < 2 ^ 52 \<and> flog (big i) = flog (big j)"
proof -
  let ?K = "{..<(2 ^ 52 :: nat)}"
  let ?J = "{2 ^ 52 .. 5 * 2 ^ 50 :: int}"
  let ?T = "(\<lambda>m::int. Num (of_int m * 2 powi (- 47))) ` ?J"
  let ?f = "\<lambda>i. flog (big i)"
  have sub: "?f ` ?K \<subseteq> ?T"
  proof
    fix d assume "d \<in> ?f ` ?K"
    then obtain i where i: "i < 2 ^ 52" and d: "d = flog (big i)" by auto
    from flog_big [OF i] obtain m where
      "flog (big i) = Num (of_int m * 2 powi (- 47))" "2 ^ 52 \<le> m" "m \<le> 5 * 2 ^ 50" by blast
    then show "d \<in> ?T" using d by auto
  qed
  have "card (?f ` ?K) \<le> card ?T"
    by (rule card_mono [OF _ sub]) simp
  also have "\<dots> \<le> card ?J" by (rule card_image_le) simp
  also have "\<dots> = 2 ^ 50 + 1" by simp
  also have "\<dots> < card ?K" by simp
  finally have "\<not> inj_on ?f ?K" using pigeonhole by blast
  then obtain i j where ij: "i \<in> ?K" "j \<in> ?K" "i \<noteq> j" "?f i = ?f j"
    unfolding inj_on_def by blast
  show ?thesis
  proof (cases "i < j")
    case True
    then show ?thesis using ij by auto
  next
    case False
    then have "j < i" using ij(3) by simp
    then show ?thesis using ij by (intro exI [of _ j] exI [of _ i]) auto
  qed
qed

lemma big_less: "i < j \<Longrightarrow> flt (big i) (big j)"
  by (simp add: big_value flt_def)

lemma big_positive: "flt (Num 0) (big i)"
proof -
  have "(0::real) < 2 ^ 53 + 2 * real i"
    by (rule add_pos_nonneg) simp_all
  then show ?thesis unfolding big_value flt_def by simp
qed

lemma ln_sigma_collision:
  assumes "flog a = flog b" and "\<exists>l. flog a = Num l"
  shows "ln_sigma a b = Num 0"
proof -
  obtain l where l: "flog a = Num l" using assms(2) by blast
  obtain c where c: "two_z = Num c" "4 \<le> c" using two_z_bounds by blast
  then have "c \<noteq> 0" by simp
  then have "fdiv (Num 0) (Num c) = Num 0" by simp
  moreover have "fsub (flog b) (flog a) = Num 0"
    using l assms(1) by (simp add: fsub_def)
  ultimately show ?thesis
    unfolding ln_sigma_def c(1) by simp
qed

text \<open>
  The claim as stated fails: the binade \<open>[2^53, 2^54)\<close> holds \<open>2^52\<close> doubles whose logarithms
  all round into the \<open>2^50 + 1\<close> doubles of \<open>[32, 40]\<close>, so two of them, \<open>a < b\<close>, have the
  same logarithm; there \<open>sigma\<close> is \<open>0.0\<close> and the sampler exits instead of drawing.
\<close>

theorem lognormal_exit_counterexample:
  "\<exists>a b. is_double a \<and> is_double b \<and> flt (Num 0) a \<and> flt a b
     \<and> generate_samples const_lib [(''var0'', RangeLit a b)] 3 0
         = Inl (InvalidDistributionError LogNormal ''var0'')"
proof -
  from log_collision obtain i j where
    ij: "i < j" "j < 2 ^ 52" and eq: "flog (big i) = flog (big j)" by blast
  have i: "i < 2 ^ 52" using ij by simp
  have fin: "\<exists>l. flog (big i) = Num l" using flog_big [OF i] by blast
  have s: "ln_sigma (big i) (big j) = Num 0"
    by (rule ln_sigma_collision [OF eq fin])
  have "sample_value const_lib ''var0'' (RangeLit (big i) (big j)) 3 0
          = Inl (InvalidDistributionError LogNormal ''var0'')"
    by (simp add: sample_value_lognormal [OF big_positive big_less [OF ij(1)]] s fle_def feq_def)
  then have "generate_samples const_lib [(''var0'', RangeLit (big i) (big j))] 3 0
         = Inl (InvalidDistributionError LogNormal ''var0'')"
    by (simp add: single_entry)
  then show ?thesis
    using big_double [OF i] big_double [OF ij(2)] big_positive big_less [OF ij(1)] by blast
qed

lemma is_double_small:
  "is_double (Num 1)" "is_double (Num 2)" "is_double (Num 3)" "is_double (Num (- 1))"
proof -
  have "rnd (of_int (2 ^ 52) * 2 powi (- 52)) = Num (of_int (2 ^ 52) * 2 powi (- 52))"
    by (rule rnd_exact_normal) simp_all
  then show "is_double (Num 1)" by (simp add: is_double_def)
  have "rnd (of_int (2 ^ 52) * 2 powi (- 51)) = Num (of_int (2 ^ 52) * 2 powi (- 51))"
    by (rule rnd_exact_normal) simp_all
  then show "is_double (Num 2)" by (simp add: is_double_def)
  have "rnd (of_int (3 * 2 ^ 51) * 2 powi (- 51)) = Num (of_int (3 * 2 ^ 51) * 2 powi (- 51))"
    by (rule rnd_exact_normal) simp_all
  then show "is_double (Num 3)" by (simp add: is_double_def)
  have "rnd (of_int (- (2 ^ 52)) * 2 powi (- 52)) = Num (of_int (- (2 ^ 52)) * 2 powi (- 52))"
    by (rule rnd_exact_normal) simp_all
  then show "is_double (Num (- 1))" by (simp add: is_double_def)
qed

theorem lognormal_branch_witness:
  "distinct (map fst [(''var0'', RangeLit (Num 1) (Num 2))])
   \<and> (''var0'', RangeLit (Num 1) (Num 2)) \<in> set [(''var0'', RangeLit (Num 1) (Num 2))]
   \<and> flt (Num 0) (Num 1) \<and> flt (Num 1) (Num 2)
   \<and> generate_samples const_lib [(''var0'', RangeLit (Num 1) (Num 2))] 3 0 =
        (if fle (ln_sigma (Num 1) (Num 2)) (Num 0) then Inl (InvalidDistributionError LogNormal ''var0'')
         else Inr ([(''var0'', fst (np_random_lognormal const_lib (ln_mu (Num 1) (Num 2))
                                      (ln_sigma (Num 1) (Num 2)) 3 0))],
                   snd (np_random_lognormal const_lib (ln_mu (Num 1) (Num 2))
                          (ln_sigma (Num 1) (Num 2)) 3 0)))"
proof -
  have d: "distinct (map fst [(''var0'', RangeLit (Num 1) (Num 2))])" by simp
  have m: "(''var0'', RangeLit (Num 1) (Num 2)) \<in> set [(''var0'', RangeLit (Num 1) (Num 2))]"
    by simp
  have p: "flt (Num 0) (Num 1)" by (simp add: flt_def)
  have l: "flt (Num 1) (Num 2)" by (simp add: flt_def)
  from lognormal_branch [OF d m p l, of const_lib 3 0] d m p l show ?thesis by blast
qed




text \<open>
  Claim C5, as amended.  On every non-empty array the reducer returns a record holding
  \<open>np.mean\<close>, \<open>np.std\<close> and the 1st and 99th \<open>np.percentile\<close> as computed in double precision;
  on an array holding one finite double \<open>x\<close> the mean is \<open>x\<close>, the standard deviation is \<open>0\<close>
  and both percentiles are \<open>x\<close>.
\<close>

theorem statistics_single:
  assumes "is_double (Num x)"
  shows "statistics [Num x] =
           Some \<lparr>mean = Num x, std_dev = Num 0, ci_lower = Num x, ci_upper = Num x\<rparr>
         \<and> (result \<noteq> [] \<longrightarrow>
              statistics result =
                Some \<lparr>mean = np_mean result, std_dev = np_std result,
                      ci_lower = np_percentile result 1, ci_upper = np_percentile result 99\<rparr>)"
  using stats_single [OF assms] by (simp add: statistics_def)

theorem statistics_single_witness:
  "is_double (Num 3)
   \<and> statistics [Num 3] = Some \<lparr>mean = Num 3, std_dev = Num 0, ci_lower = Num 3, ci_upper = Num 3\<rparr>"
  using statistics_single [OF is_double_small(3)] is_double_small(3) by simp

text \<open>
  The claim as stated fails on the one-element array holding infinity (the result of the
  expression \<open>1e400\<close>): \<open>inf - inf\<close> is NaN, so the standard deviation and both percentiles
  are NaN.
\<close>

theorem statistics_inf_counterexample:
  "statistics [PosInf] = Some \<lparr>mean = PosInf, std_dev = NaN, ci_lower = NaN, ci_upper = NaN\<rparr>"
  by (rule stats_inf)

end
